theory Spec2Isabelle
  imports Complex_Main "HOL-Library.Signed_Division"
begin

section \<open>The butterfly mock-up of experimental/butterfly.cpp\<close>

text \<open>
  The development follows \<^verbatim>\<open>main\<close> of \<^verbatim>\<open>experimental/butterfly.cpp\<close>: the two
  box bindings and their resize loop, the level sweep with its operator selection, the
  Fourier kernel, and the error metrics computed after the sweep.
\<close>

subsection \<open>Trees and boxes\<close>

text \<open>
  Modelled from the spec: \<^verbatim>\<open>fmmtl::NDTree\<close> (fmmtl/tree/NDTree.hpp) is not among the
  sources. The spec gives its contract: \<^verbatim>\<open>levels()\<close>, the ordered sequence of boxes
  of a level, and a leaf flag per box. A tree is the list of its levels, root level first;
  a box carries the identity under which a binding stores its slot, and its leaf flag.
\<close>

record box =
  box_index :: nat
  is_leaf :: bool

type_synonym tree = "box list list"

text \<open>
  Modelled from the spec: \<^verbatim>\<open>NDTree::levels()\<close> is not among the sources; it is the
  number of levels of the tree, the levels being \<open>0, \<dots>, levels() - 1\<close>.
\<close>

definition levels :: "tree \<Rightarrow> int" where
  "levels t = int (length t)"

text \<open>
  Modelled from the spec: \<^verbatim>\<open>boxes(l, tree)\<close> (fmmtl/tree/TreeRange.hpp) is not among
  the sources; it is the ordered sequence of the boxes of level \<open>l\<close>. The program only
  asks for levels between \<open>0\<close> and \<open>levels() - 1\<close>; outside that range the model yields
  no box.
\<close>

definition boxes :: "int \<Rightarrow> tree \<Rightarrow> box list" where
  "boxes l t = (if 0 \<le> l \<and> l < levels t then t ! nat l else [])"

text \<open>
  Modelled from the spec: \<^verbatim>\<open>NDTree::boxes(l)\<close> is not among the sources; it is the
  number of boxes of level \<open>l\<close>.
\<close>

definition boxes_count :: "tree \<Rightarrow> int \<Rightarrow> nat" where
  "boxes_count t l = length (boxes l t)"

text \<open>
  Modelled from the spec: the construction of a tree is not among the sources. By the
  contract of the spec every box belongs to one level and is listed once, so no two boxes
  of a tree share an identity.
\<close>

definition tree_ok :: "tree \<Rightarrow> bool" where
  "tree_ok t = distinct (map box_index (concat t))"

subsection \<open>Box bindings\<close>

text \<open>
  A slot is a \<^verbatim>\<open>std::vector\<close> of ublas vectors of complex numbers
  (\<^verbatim>\<open>multipole_type\<close>, \<^verbatim>\<open>local_type\<close>); a binding gives the slot of a box identity.
\<close>

type_synonym slot = "complex list list"

type_synonym binding = "nat \<Rightarrow> slot"

text \<open>
  Modelled from the spec: \<^verbatim>\<open>make_box_binding\<close> (fmmtl/tree/TreeData.hpp) is not among
  the sources. It returns a store addressed by box identity that holds a default-constructed
  slot per box.
\<close>

definition make_box_binding :: "tree \<Rightarrow> binding" where
  "make_box_binding t = (\<lambda>i. [])"

text \<open>
  \<^verbatim>\<open>std::vector::resize(n)\<close>: the first \<open>n\<close> elements are kept, and missing ones are
  appended default-constructed (an empty ublas vector).
\<close>

definition resize :: "nat \<Rightarrow> slot \<Rightarrow> slot" where
  "resize n xs = take n xs @ replicate (n - length xs) []"

subsection \<open>Program state\<close>

datatype operator = S2M | M2M | S2L | M2L | L2T | L2L | M2T

type_synonym event = "operator \<times> int \<times> box \<times> box"

text \<open>
  The variables of \<^verbatim>\<open>main\<close> that the butterfly part reads or writes. The operator
  branches of the source are empty apart from a comment naming the operator; two history
  fields record the control flow: \<open>visited\<close> gets one entry each time the innermost loop
  body is entered, \<open>fired\<close> one entry each time a named branch is taken.
\<close>

record state =
  result :: "complex list"
  multipole :: binding
  local :: binding
  visited :: "(int \<times> box \<times> box) list"
  fired :: "event list"

datatype error = AssertionFailed

subsection \<open>Level bounds\<close>

text \<open>
  \<^verbatim>\<open>int max_L = std::min(source_tree.levels(), target_tree.levels()) - 1;\<close>
  Tree depths are far below \<open>2^31\<close>, so the arithmetic is that of the integers.
\<close>

definition max_L :: "tree \<Rightarrow> tree \<Rightarrow> int" where
  "max_L source_tree target_tree = min (levels source_tree) (levels target_tree) - 1"

text \<open>\<^verbatim>\<open>int L_split = max_L / 2;\<close> The division of C++ truncates towards zero.\<close>

definition L_split :: "int \<Rightarrow> int" where
  "L_split mL = mL sdiv 2"

subsection \<open>Sizing the bindings\<close>

text \<open>
  One of the two inner loops of the resize loop: the slot of every box of a level is
  resized to \<open>n\<close> entries.
\<close>

definition resize_all :: "box list \<Rightarrow> nat \<Rightarrow> binding \<Rightarrow> binding" where
  "resize_all bs n bnd = fold (\<lambda>b m. m(box_index b := resize n (m (box_index b)))) bs bnd"

definition init_level :: "int \<Rightarrow> tree \<Rightarrow> tree \<Rightarrow> int \<Rightarrow> state \<Rightarrow> state" where
  "init_level mL source_tree target_tree L st =
     (let st1 = st\<lparr>multipole :=
                  resize_all (boxes (mL - L) source_tree) (boxes_count target_tree L)
                    (multipole st)\<rparr>
      in st1\<lparr>local :=
               resize_all (boxes L target_tree) (boxes_count source_tree (mL - L))
                 (local st1)\<rparr>)"

text \<open>\<^verbatim>\<open>for (int L = 0; L <= max_L; ++L)\<close>\<close>

definition initialize :: "int \<Rightarrow> tree \<Rightarrow> tree \<Rightarrow> state \<Rightarrow> state" where
  "initialize mL source_tree target_tree st =
     fold (init_level mL source_tree target_tree) [0..mL] st"

subsection \<open>The level sweep\<close>

definition fire :: "operator \<Rightarrow> int \<Rightarrow> box \<Rightarrow> box \<Rightarrow> state \<Rightarrow> state" where
  "fire opr L sbox tbox st = st\<lparr>fired := fired st @ [(opr, L, sbox, tbox)]\<rparr>"

text \<open>
  The body of the innermost loop: the source-side chain, the crossover test and the
  target-side chain, in the order of the source. The counters \<^verbatim>\<open>s_idx\<close> and
  \<^verbatim>\<open>t_idx\<close> are incremented in the source and never read; they are left out.
\<close>

definition pair_step :: "int \<Rightarrow> int \<Rightarrow> int \<Rightarrow> box \<Rightarrow> box \<Rightarrow> state \<Rightarrow> state" where
  "pair_step mL Ls L sbox tbox st =
     (let st0 = st\<lparr>visited := visited st @ [(L, sbox, tbox)]\<rparr>;
          st1 = (if L = 0 \<or> is_leaf sbox then fire S2M L sbox tbox st0
                 else if L < Ls then fire M2M L sbox tbox st0
                 else fire S2L L sbox tbox st0);
          st2 = (if L = Ls then fire M2L L sbox tbox st1 else st1)
      in (if L = mL \<or> is_leaf tbox then fire L2T L sbox tbox st2
          else if L > Ls then fire L2L L sbox tbox st2
          else fire M2T L sbox tbox st2))"

text \<open>\<^verbatim>\<open>for (target_box_type tbox : boxes(L, target_tree))\<close>\<close>

definition target_loop :: "int \<Rightarrow> int \<Rightarrow> tree \<Rightarrow> int \<Rightarrow> box \<Rightarrow> state \<Rightarrow> state" where
  "target_loop mL Ls target_tree L sbox st =
     fold (pair_step mL Ls L sbox) (boxes L target_tree) st"

text \<open>\<^verbatim>\<open>for (source_box_type sbox : boxes(max_L - L, source_tree))\<close>\<close>

definition source_loop :: "int \<Rightarrow> int \<Rightarrow> tree \<Rightarrow> tree \<Rightarrow> int \<Rightarrow> state \<Rightarrow> state" where
  "source_loop mL Ls source_tree target_tree L st =
     fold (target_loop mL Ls target_tree L) (boxes (mL - L) source_tree) st"

text \<open>\<^verbatim>\<open>for (int L = 0; L < L_split; ++L)\<close>\<close>

definition sweep :: "int \<Rightarrow> int \<Rightarrow> tree \<Rightarrow> tree \<Rightarrow> state \<Rightarrow> state" where
  "sweep mL Ls source_tree target_tree st =
     fold (source_loop mL Ls source_tree target_tree) [0..Ls - 1] st"

subsection \<open>The butterfly part of main\<close>

text \<open>
  The state after \<^verbatim>\<open>std::vector<result_type> result(M)\<close> and the two calls of
  \<^verbatim>\<open>make_box_binding\<close>: \<open>M\<close> value-initialised results and empty slots.
\<close>

definition start :: "nat \<Rightarrow> tree \<Rightarrow> tree \<Rightarrow> state" where
  "start M source_tree target_tree =
     \<lparr>result = replicate M 0,
      multipole = make_box_binding source_tree,
      local = make_box_binding target_tree,
      visited = [], fired = []\<rparr>"

text \<open>
  From the construction of the bindings to the end of the sweep. A failed
  \<^verbatim>\<open>assert(L_split > 0)\<close> aborts the program; the model returns the error together
  with the state reached at that point.
\<close>

definition butterfly :: "nat \<Rightarrow> tree \<Rightarrow> tree \<Rightarrow> (error \<times> state) + state" where
  "butterfly M source_tree target_tree =
     (let mL = max_L source_tree target_tree;
          st = initialize mL source_tree target_tree (start M source_tree target_tree);
          Ls = L_split mL
      in if Ls > 0 then Inr (sweep mL Ls source_tree target_tree st)
         else Inl (AssertionFailed, st))"

definition final_state :: "(error \<times> state) + state \<Rightarrow> state" where
  "final_state r = (case r of Inl (e, st) \<Rightarrow> st | Inr st \<Rightarrow> st)"

subsection \<open>Vocabulary of the claims about the sweep\<close>

text \<open>
  The cross product of a level pairing: every source box of level \<open>mL - L\<close> with every
  target box of level \<open>L\<close>, in the order of the two nested loops.
\<close>

definition level_pairs :: "int \<Rightarrow> tree \<Rightarrow> tree \<Rightarrow> int \<Rightarrow> (int \<times> box \<times> box) list" where
  "level_pairs mL source_tree target_tree L =
     concat (map (\<lambda>sbox. map (\<lambda>tbox. (L, sbox, tbox)) (boxes L target_tree))
                 (boxes (mL - L) source_tree))"

definition source_side :: "operator \<Rightarrow> bool" where
  "source_side opr = (opr = S2M \<or> opr = M2M \<or> opr = S2L)"

definition target_side :: "operator \<Rightarrow> bool" where
  "target_side opr = (opr = L2T \<or> opr = L2L \<or> opr = M2T)"

definition selected :: "(operator \<Rightarrow> bool) \<Rightarrow> event list \<Rightarrow> event list" where
  "selected side es = filter (\<lambda>e. side (fst e)) es"

definition crossovers :: "state \<Rightarrow> event list" where
  "crossovers st = filter (\<lambda>e. fst e = M2L) (fired st)"

text \<open>
  The selection rules in the words of the spec (first matching rule wins), to be compared
  with the branches of \<open>pair_step\<close>.
\<close>

definition spec_source_operator :: "int \<Rightarrow> int \<Rightarrow> box \<Rightarrow> operator" where
  "spec_source_operator Ls L sbox =
     (if L = 0 \<or> is_leaf sbox then S2M else if L < Ls then M2M else S2L)"

definition spec_target_operator :: "int \<Rightarrow> int \<Rightarrow> int \<Rightarrow> box \<Rightarrow> operator" where
  "spec_target_operator mL Ls L tbox =
     (if L = mL \<or> is_leaf tbox then L2T else if L > Ls then L2L else M2T)"

text \<open>
  The invariant of the sweep: the source-side events are, in order, one per visited
  triple, each with the operator the rule gives; likewise the target-side events.
\<close>

definition one_per_side :: "int \<Rightarrow> int \<Rightarrow> state \<Rightarrow> bool" where
  "one_per_side mL Ls st =
     (selected source_side (fired st) =
        map (\<lambda>(L, sbox, tbox). (spec_source_operator Ls L sbox, L, sbox, tbox)) (visited st) \<and>
      selected target_side (fired st) =
        map (\<lambda>(L, sbox, tbox). (spec_target_operator mL Ls L tbox, L, sbox, tbox))
          (visited st))"

subsection \<open>Example trees\<close>

text \<open>
  A tree of three levels: a root, two children, and four leaves; and a copy whose
  identities are the same (source and target trees have separate bindings).
\<close>

definition tree3 :: tree where
  "tree3 =
     [[\<lparr>box_index = 0, is_leaf = False\<rparr>],
      [\<lparr>box_index = 1, is_leaf = False\<rparr>, \<lparr>box_index = 2, is_leaf = False\<rparr>],
      [\<lparr>box_index = 3, is_leaf = True\<rparr>, \<lparr>box_index = 4, is_leaf = True\<rparr>,
       \<lparr>box_index = 5, is_leaf = True\<rparr>, \<lparr>box_index = 6, is_leaf = True\<rparr>]]"

definition tree2 :: tree where
  "tree2 =
     [[\<lparr>box_index = 0, is_leaf = False\<rparr>],
      [\<lparr>box_index = 1, is_leaf = True\<rparr>, \<lparr>box_index = 2, is_leaf = True\<rparr>]]"

section \<open>The Fourier kernel\<close>

text \<open>
  Modelled from the spec: \<^verbatim>\<open>Vec<1,double>\<close> and \<^verbatim>\<open>inner_prod\<close>
  (fmmtl/numeric/Vec.hpp) are not among the sources. A point is a coordinate vector of
  dimension 1, here its single coordinate, and the inner product of two such vectors is
  the product of the coordinates. A \<^verbatim>\<open>double\<close> is a real number in this section:
  rounding is not modelled.
\<close>

type_synonym point = real

definition inner_prod :: "point \<Rightarrow> point \<Rightarrow> real" where
  "inner_prod t s = t * s"

text \<open>\<^verbatim>\<open>boost::math::cos_pi\<close> and \<^verbatim>\<open>boost::math::sin_pi\<close>: \<open>cos (\<pi> x)\<close> and \<open>sin (\<pi> x)\<close>.\<close>

definition cos_pi :: "real \<Rightarrow> real" where
  "cos_pi x = cos (pi * x)"

definition sin_pi :: "real \<Rightarrow> real" where
  "sin_pi x = sin (pi * x)"

text \<open>\<^verbatim>\<open>FourierKernel::operator()\<close>\<close>

definition kernel_value :: "point \<Rightarrow> point \<Rightarrow> complex" where
  "kernel_value t s = (let r = 2 * inner_prod t s in Complex (cos_pi r) (sin_pi r))"

text \<open>\<^verbatim>\<open>FourierKernel::phase\<close>\<close>

definition phase :: "point \<Rightarrow> point \<Rightarrow> real" where
  "phase t s = 2 * pi * inner_prod t s"

text \<open>\<^verbatim>\<open>FourierKernel::ampl\<close>\<close>

definition ampl :: "point \<Rightarrow> point \<Rightarrow> real" where
  "ampl t s = 1"

section \<open>The error metrics\<close>

text \<open>
  The metrics divide by norms that can be zero, so the values of the accumulators are
  modelled with the special values of IEEE 754: a \<open>double\<close> is a finite real number,
  an infinity or NaN. Operations on finite values are exact (rounding and overflow are
  not modelled); the special values follow IEEE 754. A zero is the positive zero: every
  divisor of the program is a norm, a sum of squares or a size.
\<close>

datatype double = Fin real | PInf | NInf | NaN

fun is_finite :: "double \<Rightarrow> bool" where
  "is_finite (Fin a) = True"
| "is_finite _ = False"

text \<open>Addition: NaN is absorbing, infinities of opposite sign give NaN.\<close>

fun dadd :: "double \<Rightarrow> double \<Rightarrow> double" where
  "dadd (Fin a) (Fin b) = Fin (a + b)"
| "dadd NaN _ = NaN"
| "dadd _ NaN = NaN"
| "dadd PInf NInf = NaN"
| "dadd NInf PInf = NaN"
| "dadd PInf _ = PInf"
| "dadd _ PInf = PInf"
| "dadd NInf _ = NInf"
| "dadd _ NInf = NInf"

text \<open>
  Division: \<open>0 / 0\<close> and \<open>\<infinity> / \<infinity>\<close> are NaN, a non-zero finite value over zero is an
  infinity of its sign, a finite value over an infinity is zero.
\<close>

fun ddiv :: "double \<Rightarrow> double \<Rightarrow> double" where
  "ddiv (Fin a) (Fin b) =
     (if b \<noteq> 0 then Fin (a / b)
      else if a = 0 then NaN else if 0 < a then PInf else NInf)"
| "ddiv NaN _ = NaN"
| "ddiv _ NaN = NaN"
| "ddiv (Fin a) _ = Fin 0"
| "ddiv PInf (Fin b) = (if 0 \<le> b then PInf else NInf)"
| "ddiv NInf (Fin b) = (if 0 \<le> b then NInf else PInf)"
| "ddiv _ _ = NaN"

text \<open>The comparison \<^verbatim>\<open><\<close>: false whenever an operand is NaN.\<close>

fun dless :: "double \<Rightarrow> double \<Rightarrow> bool" where
  "dless (Fin a) (Fin b) = (a < b)"
| "dless NaN _ = False"
| "dless _ NaN = False"
| "dless PInf _ = False"
| "dless _ PInf = True"
| "dless NInf (Fin b) = True"
| "dless _ NInf = False"

text \<open>\<^verbatim>\<open>std::max(a, b)\<close> is \<^verbatim>\<open>(a < b) ? b : a\<close>.\<close>

definition std_max :: "double \<Rightarrow> double \<Rightarrow> double" where
  "std_max a b = (if dless a b then b else a)"

fun dsqrt :: "double \<Rightarrow> double" where
  "dsqrt (Fin a) = (if 0 \<le> a then Fin (sqrt a) else NaN)"
| "dsqrt PInf = PInf"
| "dsqrt _ = NaN"

text \<open>
  Modelled from the spec: \<^verbatim>\<open>norm_2\<close> (fmmtl/numeric/norm.hpp) is not among the
  sources. The spec writes it as the norm of a complex number.
\<close>

definition norm_2 :: "complex \<Rightarrow> double" where
  "norm_2 z = Fin (cmod z)"

text \<open>
  Modelled from the spec: \<^verbatim>\<open>norm_2_sq\<close> (fmmtl/numeric/norm.hpp) is not among the
  sources. The spec writes it as the square of the norm.
\<close>

definition norm_2_sq :: "complex \<Rightarrow> double" where
  "norm_2_sq z = Fin ((cmod z)\<^sup>2)"

text \<open>The four accumulators of the loop.\<close>

record totals =
  tot_error_sq :: double
  tot_norm_sq :: double
  tot_ind_rel_err :: double
  max_ind_rel_err :: double

text \<open>\<^verbatim>\<open>double rel_error = norm_2(exact[k] - result[k]) / norm_2(exact[k]);\<close>\<close>

definition rel_error :: "complex \<Rightarrow> complex \<Rightarrow> double" where
  "rel_error r e = ddiv (norm_2 (e - r)) (norm_2 e)"

text \<open>
  The body of the loop for index \<open>k\<close>, with \<open>rs\<close> for \<^verbatim>\<open>result\<close> and \<open>es\<close> for
  \<^verbatim>\<open>exact\<close>. Both vectors have \<open>M\<close> elements in the program, so \<open>k\<close> is in range of both.
\<close>

definition error_step :: "complex list \<Rightarrow> complex list \<Rightarrow> nat \<Rightarrow> totals \<Rightarrow> totals" where
  "error_step rs es k a =
     \<lparr>tot_error_sq = dadd (tot_error_sq a) (norm_2_sq (es ! k - rs ! k)),
      tot_norm_sq = dadd (tot_norm_sq a) (norm_2_sq (es ! k)),
      tot_ind_rel_err = dadd (tot_ind_rel_err a) (rel_error (rs ! k) (es ! k)),
      max_ind_rel_err = std_max (max_ind_rel_err a) (rel_error (rs ! k) (es ! k))\<rparr>"

definition zero_totals :: totals where
  "zero_totals = \<lparr>tot_error_sq = Fin 0, tot_norm_sq = Fin 0, tot_ind_rel_err = Fin 0,
                  max_ind_rel_err = Fin 0\<rparr>"

text \<open>\<^verbatim>\<open>for (unsigned k = 0; k < result.size(); ++k)\<close>, run for the first \<open>n\<close> indices.\<close>

definition error_loop :: "complex list \<Rightarrow> complex list \<Rightarrow> nat \<Rightarrow> totals" where
  "error_loop rs es n = fold (error_step rs es) [0..<n] zero_totals"

text \<open>The three numbers the program prints.\<close>

record report =
  tot_rel_err :: double
  ave_rel_err :: double
  max_rel_err :: double

definition check_errors :: "complex list \<Rightarrow> complex list \<Rightarrow> report" where
  "check_errors rs es =
     (let a = error_loop rs es (length rs)
      in \<lparr>tot_rel_err = dsqrt (ddiv (tot_error_sq a) (tot_norm_sq a)),
          ave_rel_err = ddiv (tot_ind_rel_err a) (Fin (real (length rs))),
          max_rel_err = max_ind_rel_err a\<rparr>)"

text \<open>The per-target ratio of the spec, as a real number.\<close>

definition ratio :: "complex list \<Rightarrow> complex list \<Rightarrow> nat \<Rightarrow> real" where
  "ratio rs es k = cmod (es ! k - rs ! k) / cmod (es ! k)"

section \<open>Properties of the sweep\<close>

subsection \<open>Folds that extend or keep a field\<close>

lemma fold_append_hist:
  assumes "\<And>x st. g (f x st) = g st @ h x"
  shows "g (fold f xs st) = g st @ concat (map h xs)"
  using assms by (induction xs arbitrary: st) simp_all

lemma fold_keeps:
  assumes "\<And>x st. g (f x st) = g st"
  shows "g (fold f xs st) = g st"
  using assms by (induction xs arbitrary: st) simp_all

lemma fold_keeps_on:
  assumes "\<And>x st. x \<in> set xs \<Longrightarrow> g (f x st) = g st"
  shows "g (fold f xs st) = g st"
  using assms by (induction xs arbitrary: st) simp_all

lemma fold_invariant:
  assumes "\<And>x st. P st \<Longrightarrow> P (f x st)" and "P st"
  shows "P (fold f xs st)"
  using assms by (induction xs arbitrary: st) simp_all

subsection \<open>The resize loop leaves the histories and the results alone\<close>

lemma visited_init_level: "visited (init_level mL ts tt L st) = visited st"
  by (simp add: init_level_def Let_def)

lemma fired_init_level: "fired (init_level mL ts tt L st) = fired st"
  by (simp add: init_level_def Let_def)

lemma result_init_level: "result (init_level mL ts tt L st) = result st"
  by (simp add: init_level_def Let_def)

lemma visited_initialize: "visited (initialize mL ts tt st) = visited st"
  unfolding initialize_def by (rule fold_keeps) (rule visited_init_level)

lemma fired_initialize: "fired (initialize mL ts tt st) = fired st"
  unfolding initialize_def by (rule fold_keeps) (rule fired_init_level)

lemma result_initialize: "result (initialize mL ts tt st) = result st"
  unfolding initialize_def by (rule fold_keeps) (rule result_init_level)

subsection \<open>Level bounds\<close>

lemma L_split_trunc: "L_split m = (if 0 \<le> m then m div 2 else - ((- m) div 2))"
  by (simp add: L_split_def signed_divide_int_def sgn_if)

lemma L_split_pos_iff: "(L_split m \<le> 0) = (m < 2)"
  by (simp add: L_split_trunc) linarith

lemma final_state_butterfly:
  "final_state (butterfly M ts tt) =
     (if L_split (max_L ts tt) > 0
      then sweep (max_L ts tt) (L_split (max_L ts tt)) ts tt
             (initialize (max_L ts tt) ts tt (start M ts tt))
      else initialize (max_L ts tt) ts tt (start M ts tt))"
  by (simp add: final_state_def butterfly_def Let_def)

lemma max_L_tree3: "max_L tree3 tree3 = 2"
  by (simp add: max_L_def levels_def tree3_def)

lemma max_L_tree2: "max_L tree2 tree3 = 1"
  by (simp add: max_L_def levels_def tree3_def tree2_def)

lemma boxes_tree3:
  "boxes 0 tree3 = [\<lparr>box_index = 0, is_leaf = False\<rparr>]"
  "boxes 1 tree3 = [\<lparr>box_index = 1, is_leaf = False\<rparr>, \<lparr>box_index = 2, is_leaf = False\<rparr>]"
  "boxes 2 tree3 = [\<lparr>box_index = 3, is_leaf = True\<rparr>, \<lparr>box_index = 4, is_leaf = True\<rparr>,
       \<lparr>box_index = 5, is_leaf = True\<rparr>, \<lparr>box_index = 6, is_leaf = True\<rparr>]"
  by (simp_all add: boxes_def levels_def tree3_def)


text \<open>
  C6. \<open>max_L\<close> is the smaller of the two trees' numbers of levels, minus one, and
  \<open>L_split\<close> is \<open>max_L / 2\<close> in integer division. (For trees with at least one level
  \<open>max_L\<close> is not negative and the truncating division of C++ is the rounding-down one.)
\<close>

theorem level_bounds:
  "max_L ts tt = int (min (length ts) (length tt)) - 1 \<and>
   L_split (max_L ts tt) = (if ts = [] \<or> tt = [] then 0 else max_L ts tt div 2)"
  by (auto simp add: max_L_def levels_def L_split_trunc min_def)

text \<open>
  C5. \<open>max_L < 2\<close> is the same as \<open>L_split \<le> 0\<close>, and then the assertion stops the
  program after the resize loop: the run ends in \<open>AssertionFailed\<close> and the innermost
  loop body of the sweep has never been entered.
\<close>

theorem assertion_aborts:
  "(max_L ts tt < 2) = (L_split (max_L ts tt) \<le> 0) \<and>
   (max_L ts tt < 2 \<longrightarrow>
      butterfly M ts tt =
        Inl (AssertionFailed, initialize (max_L ts tt) ts tt (start M ts tt)) \<and>
      visited (final_state (butterfly M ts tt)) = [] \<and>
      fired (final_state (butterfly M ts tt)) = [])"
proof -
  have "\<not> 0 < L_split (max_L ts tt)" if "max_L ts tt < 2"
    using that L_split_pos_iff [of "max_L ts tt"] by simp
  then show ?thesis
    by (simp add: L_split_pos_iff butterfly_def final_state_def Let_def visited_initialize
        fired_initialize start_def)
qed

theorem assertion_aborts_witness:
  "max_L tree2 tree3 < 2 \<and>
   butterfly 5 tree2 tree3 =
     Inl (AssertionFailed, initialize (max_L tree2 tree3) tree2 tree3 (start 5 tree2 tree3)) \<and>
   visited (final_state (butterfly 5 tree2 tree3)) = []"
proof -
  have "max_L tree2 tree3 < 2"
    by (simp add: max_L_tree2)
  with assertion_aborts [of tree2 tree3 5] show ?thesis
    by blast
qed

subsection \<open>Which triples the sweep visits\<close>

lemma visited_pair_step:
  "visited (pair_step mL Ls L sbox tbox st) = visited st @ [(L, sbox, tbox)]"
  by (simp add: pair_step_def Let_def fire_def)

lemma visited_target_loop:
  "visited (target_loop mL Ls tt L sbox st) =
     visited st @ map (\<lambda>tbox. (L, sbox, tbox)) (boxes L tt)"
  unfolding target_loop_def
  by (simp add: fold_append_hist [where g = visited and h = "\<lambda>tbox. [(L, sbox, tbox)]"]
      visited_pair_step)

lemma visited_source_loop:
  "visited (source_loop mL Ls ts tt L st) = visited st @ level_pairs mL ts tt L"
  unfolding source_loop_def level_pairs_def
  by (rule fold_append_hist) (rule visited_target_loop)

lemma visited_sweep:
  "visited (sweep mL Ls ts tt st) =
     visited st @ concat (map (level_pairs mL ts tt) [0..Ls - 1])"
  unfolding sweep_def
  by (rule fold_append_hist) (rule visited_source_loop)

lemma visited_butterfly:
  "visited (final_state (butterfly M ts tt)) =
     concat (map (level_pairs (max_L ts tt) ts tt) [0..L_split (max_L ts tt) - 1])"
  by (simp add: final_state_butterfly visited_sweep visited_initialize start_def)



subsection \<open>Operator selection\<close>

lemma fired_pair_step:
  "fired (pair_step mL Ls L sbox tbox st) =
     fired st @ [(spec_source_operator Ls L sbox, L, sbox, tbox)]
       @ (if L = Ls then [(M2L, L, sbox, tbox)] else [])
       @ [(spec_target_operator mL Ls L tbox, L, sbox, tbox)]"
  by (simp add: pair_step_def Let_def fire_def spec_source_operator_def
      spec_target_operator_def)

lemma source_side_spec [simp]:
  "source_side (spec_source_operator Ls L sbox)"
  "\<not> target_side (spec_source_operator Ls L sbox)"
  by (simp_all add: source_side_def target_side_def spec_source_operator_def)

lemma target_side_spec [simp]:
  "target_side (spec_target_operator mL Ls L tbox)"
  "\<not> source_side (spec_target_operator mL Ls L tbox)"
  by (simp_all add: source_side_def target_side_def spec_target_operator_def)

lemma M2L_no_side [simp]: "\<not> source_side M2L" "\<not> target_side M2L"
  by (simp_all add: source_side_def target_side_def)

lemma one_per_side_pair_step:
  "one_per_side mL Ls st \<Longrightarrow> one_per_side mL Ls (pair_step mL Ls L sbox tbox st)"
  by (simp add: one_per_side_def selected_def fired_pair_step visited_pair_step)

lemma one_per_side_sweep:
  assumes "one_per_side mL Ls st"
  shows "one_per_side mL Ls (sweep mL Ls ts tt st)"
proof -
  have t: "one_per_side mL Ls (target_loop mL Ls tt L sbox s)"
    if "one_per_side mL Ls s" for L sbox s
    unfolding target_loop_def using that
    by (rule fold_invariant [where P = "one_per_side mL Ls", rotated])
      (rule one_per_side_pair_step)
  have s: "one_per_side mL Ls (source_loop mL Ls ts tt L s)"
    if "one_per_side mL Ls s" for L s
    unfolding source_loop_def using that
    by (rule fold_invariant [where P = "one_per_side mL Ls", rotated]) (rule t)
  from assms show ?thesis
    unfolding sweep_def
    by (rule fold_invariant [where P = "one_per_side mL Ls", rotated]) (rule s)
qed

lemma one_per_side_initialize:
  "one_per_side mL Ls (initialize mL' ts tt (start M ts tt))"
  by (simp add: one_per_side_def selected_def fired_initialize visited_initialize start_def)

lemma one_per_side_butterfly:
  "one_per_side (max_L ts tt) (L_split (max_L ts tt)) (final_state (butterfly M ts tt))"
  by (simp add: final_state_butterfly one_per_side_sweep one_per_side_initialize)

lemma selected_pair_step:
  "selected source_side (drop (length (fired st)) (fired (pair_step mL Ls L sbox tbox st))) =
     [(spec_source_operator Ls L sbox, L, sbox, tbox)]"
  "selected target_side (drop (length (fired st)) (fired (pair_step mL Ls L sbox tbox st))) =
     [(spec_target_operator mL Ls L tbox, L, sbox, tbox)]"
  by (simp_all add: fired_pair_step selected_def)

lemma selected_butterfly:
  "selected source_side (fired (final_state (butterfly M ts tt))) =
     map (\<lambda>(L, sbox, tbox).
            (spec_source_operator (L_split (max_L ts tt)) L sbox, L, sbox, tbox))
       (concat (map (level_pairs (max_L ts tt) ts tt) [0..L_split (max_L ts tt) - 1]))"
  "selected target_side (fired (final_state (butterfly M ts tt))) =
     map (\<lambda>(L, sbox, tbox).
            (spec_target_operator (max_L ts tt) (L_split (max_L ts tt)) L tbox, L, sbox, tbox))
       (concat (map (level_pairs (max_L ts tt) ts tt) [0..L_split (max_L ts tt) - 1]))"
  using one_per_side_butterfly [of ts tt M]
  by (simp_all only: one_per_side_def visited_butterfly)

text \<open>
  C3. Whatever the level \<open>L\<close>, the bounds \<open>max_L\<close> and \<open>L_split\<close>, the two boxes and the
  state, one pass through the body of the innermost loop selects exactly one source-side
  operator, namely S2M if \<open>L = 0\<close> or the source box is a leaf, else M2M if
  \<open>L < L_split\<close>, else S2L, and exactly one target-side operator, namely L2T if
  \<open>L = max_L\<close> or the target box is a leaf, else L2L if \<open>L > L_split\<close>, else M2T. And in
  a run of the program the source-side selections are, in order, exactly one for each
  triple \<open>(L, sbox, tbox)\<close> of the cross products the sweep goes through, with the
  operator of the rule; likewise the target-side selections.
\<close>

theorem one_operator_per_side:
  "selected source_side (drop (length (fired st)) (fired (pair_step mL Ls L sbox tbox st))) =
     [(if L = 0 \<or> is_leaf sbox then S2M else if L < Ls then M2M else S2L, L, sbox, tbox)] \<and>
   selected target_side (drop (length (fired st)) (fired (pair_step mL Ls L sbox tbox st))) =
     [(if L = mL \<or> is_leaf tbox then L2T else if L > Ls then L2L else M2T, L, sbox, tbox)] \<and>
   selected source_side (fired (final_state (butterfly M ts tt))) =
     map (\<lambda>(L, sbox, tbox).
            (if L = 0 \<or> is_leaf sbox then S2M
             else if L < L_split (max_L ts tt) then M2M else S2L, L, sbox, tbox))
       (concat (map (level_pairs (max_L ts tt) ts tt) [0..L_split (max_L ts tt) - 1])) \<and>
   selected target_side (fired (final_state (butterfly M ts tt))) =
     map (\<lambda>(L, sbox, tbox).
            (if L = max_L ts tt \<or> is_leaf tbox then L2T
             else if L > L_split (max_L ts tt) then L2L else M2T, L, sbox, tbox))
       (concat (map (level_pairs (max_L ts tt) ts tt) [0..L_split (max_L ts tt) - 1]))"
  using selected_pair_step [of st mL Ls L sbox tbox] selected_butterfly [of M ts tt]
  by (simp only: spec_source_operator_def spec_target_operator_def)

subsection \<open>The crossover\<close>

lemma crossovers_pair_step:
  "L \<noteq> Ls \<Longrightarrow> crossovers (pair_step mL Ls L sbox tbox st) = crossovers st"
  by (simp add: crossovers_def fired_pair_step spec_source_operator_def
      spec_target_operator_def)

lemma crossovers_source_loop:
  assumes "L \<noteq> Ls"
  shows "crossovers (source_loop mL Ls ts tt L st) = crossovers st"
proof -
  have "crossovers (target_loop mL Ls tt L sbox s) = crossovers s" for sbox s
    unfolding target_loop_def
    by (rule fold_keeps) (rule crossovers_pair_step [OF assms])
  then show ?thesis
    unfolding source_loop_def by (rule fold_keeps)
qed

lemma crossovers_sweep: "crossovers (sweep mL Ls ts tt st) = crossovers st"
  unfolding sweep_def
  by (rule fold_keeps_on) (simp add: crossovers_source_loop)

lemma crossovers_butterfly: "crossovers (final_state (butterfly M ts tt)) = []"
  by (simp add: final_state_butterfly crossovers_sweep)
    (simp add: crossovers_def fired_initialize start_def)

text \<open>
  C2. With two trees of three levels, \<open>max_L = 2\<close> and \<open>L_split = 1\<close>; the program passes
  the assertion and runs the sweep to its end, the level pairing of \<open>L_split\<close> has box
  pairs, and the M2L branch is not taken once. (\<open>crossovers_butterfly\<close>: it is taken
  in no run at all, the loop ending before \<open>L = L_split\<close>.)
\<close>

theorem crossover_never_fires:
  "2 \<le> max_L tree3 tree3 \<and>
   butterfly 1 tree3 tree3 = Inr (final_state (butterfly 1 tree3 tree3)) \<and>
   level_pairs (max_L tree3 tree3) tree3 tree3 (L_split (max_L tree3 tree3)) \<noteq> [] \<and>
   crossovers (final_state (butterfly 1 tree3 tree3)) = []"
proof -
  have "butterfly 1 tree3 tree3 = Inr (final_state (butterfly 1 tree3 tree3))"
    by (simp add: butterfly_def final_state_def Let_def max_L_tree3 L_split_trunc)
  moreover have
    "level_pairs (max_L tree3 tree3) tree3 tree3 (L_split (max_L tree3 tree3)) \<noteq> []"
    by (simp add: max_L_tree3 L_split_trunc level_pairs_def boxes_tree3)
  ultimately show ?thesis
    by (simp add: crossovers_butterfly max_L_tree3)
qed

subsection \<open>What the sweep writes\<close>

lemma frame_pair_step:
  "result (pair_step mL Ls L sbox tbox st) = result st"
  "multipole (pair_step mL Ls L sbox tbox st) = multipole st"
  "local (pair_step mL Ls L sbox tbox st) = local st"
  by (simp_all add: pair_step_def Let_def fire_def)

lemma frame_sweep:
  "result (sweep mL Ls ts tt st) = result st"
  "multipole (sweep mL Ls ts tt st) = multipole st"
  "local (sweep mL Ls ts tt st) = local st"
  unfolding sweep_def source_loop_def target_loop_def
  by (rule fold_keeps, rule fold_keeps, rule fold_keeps, rule frame_pair_step)+

text \<open>
  C10. Whatever the input, at the end of the butterfly part every entry of \<open>result\<close> is
  the zero it was initialised with, and the two bindings hold what the resize loop left
  in them: the sweep writes to none of the three.
\<close>

theorem sweep_writes_nothing:
  "result (final_state (butterfly M ts tt)) = replicate M 0 \<and>
   multipole (final_state (butterfly M ts tt)) =
     multipole (initialize (max_L ts tt) ts tt (start M ts tt)) \<and>
   local (final_state (butterfly M ts tt)) =
     local (initialize (max_L ts tt) ts tt (start M ts tt))"
  by (simp add: final_state_butterfly frame_sweep result_initialize start_def)

section \<open>Sizes of the binding slots\<close>

lemma resize_replicate: "resize n (replicate k []) = replicate n []"
  by (simp add: resize_def min_def replicate_add [symmetric])

lemma resize_all_apply:
  "resize_all bs n bnd i =
     (if i \<in> box_index ` set bs then resize n (bnd i) else bnd i)"
  unfolding resize_all_def
proof (induction bs arbitrary: bnd)
  case Nil
  show ?case by simp
next
  case (Cons b bs)
  have idem: "resize n (resize n xs) = resize n xs" for xs
    by (simp add: resize_def)
  have "fold (\<lambda>b m. m(box_index b := resize n (m (box_index b)))) (b # bs) bnd i =
        fold (\<lambda>b m. m(box_index b := resize n (m (box_index b)))) bs
          (bnd(box_index b := resize n (bnd (box_index b)))) i"
    by (simp only: fold_simps)
  also have "\<dots> = (if i \<in> box_index ` set bs
                   then resize n ((bnd(box_index b := resize n (bnd (box_index b)))) i)
                   else (bnd(box_index b := resize n (bnd (box_index b)))) i)"
    by (rule Cons.IH)
  also have "\<dots> = (if i \<in> box_index ` set (b # bs) then resize n (bnd i) else bnd i)"
    by (simp add: idem)
  finally show ?case .
qed

lemma levels_apart:
  assumes "distinct (concat xss)" and "i < j" and "j < length xss"
  shows "set (xss ! i) \<inter> set (xss ! j) = {}"
  using assms
proof (induction xss arbitrary: i j)
  case Nil
  then show ?case by simp
next
  case (Cons xs xss)
  show ?case
  proof (cases i)
    case 0
    with Cons.prems obtain j' where j: "j = Suc j'" "j' < length xss"
      by (cases j) auto
    then have "xss ! j' \<in> set xss"
      by simp
    then have "set (xss ! j') \<subseteq> set (concat xss)"
      by auto
    with Cons.prems(1) 0 j show ?thesis
      by auto
  next
    case (Suc i')
    with Cons.prems obtain j' where j: "j = Suc j'" "j' < length xss" "i' < j'"
      by (cases j) auto
    with Cons.prems(1) Cons.IH [of i' j'] Suc show ?thesis
      by simp
  qed
qed

lemma tree_ok_levels_apart:
  assumes "tree_ok t" and "l \<noteq> l'" and "b \<in> set (boxes l t)" and "b' \<in> set (boxes l' t)"
  shows "box_index b \<noteq> box_index b'"
proof -
  from assms(3) have l: "0 \<le> l" "nat l < length t" "b \<in> set (t ! nat l)"
    by (auto simp: boxes_def levels_def split: if_splits)
  from assms(4) have l': "0 \<le> l'" "nat l' < length t" "b' \<in> set (t ! nat l')"
    by (auto simp: boxes_def levels_def split: if_splits)
  let ?xss = "map (map box_index) t"
  have d: "distinct (concat ?xss)"
    using assms(1) by (simp add: tree_ok_def map_concat)
  have ne: "nat l \<noteq> nat l'"
    using assms(2) l(1) l'(1) by simp
  have "set (?xss ! nat l) \<inter> set (?xss ! nat l') = {}"
  proof (cases "nat l < nat l'")
    case True
    then show ?thesis using levels_apart [OF d, of "nat l" "nat l'"] l'(2) by simp
  next
    case False
    with ne have "nat l' < nat l" by linarith
    then show ?thesis using levels_apart [OF d, of "nat l'" "nat l"] l(2) by auto
  qed
  with l l' show ?thesis
    by (auto simp: disjoint_iff)
qed

lemma resize_all_form:
  assumes "\<And>i. \<exists>k. bnd i = replicate k []"
  shows "\<exists>k. resize_all bs n bnd i = replicate k []"
proof -
  obtain k where "bnd i = replicate k []"
    using assms by blast
  then show ?thesis
    by (auto simp: resize_all_apply resize_replicate)
qed

lemma fold_resize_form:
  fixes lev :: "int \<Rightarrow> box list" and cnt :: "int \<Rightarrow> nat"
  assumes "\<And>i. \<exists>k. bnd i = replicate k []"
  shows "\<exists>k. fold (\<lambda>L. resize_all (lev L) (cnt L)) Ls bnd i = replicate k []"
  using assms
proof (induction Ls arbitrary: bnd i)
  case Nil
  then show ?case by simp
next
  case (Cons L Ls)
  have "\<exists>k. resize_all (lev L) (cnt L) bnd j = replicate k []" for j
    by (rule resize_all_form) (rule Cons.prems)
  then show ?case
    using Cons.IH [of "resize_all (lev L) (cnt L) bnd" i] by simp
qed

lemma fold_resize_stable:
  fixes lev :: "int \<Rightarrow> box list" and cnt :: "int \<Rightarrow> nat"
  assumes apart: "\<And>L L' b b'. b \<in> set (lev L) \<Longrightarrow> b' \<in> set (lev L') \<Longrightarrow>
                    box_index b = box_index b' \<Longrightarrow> cnt L = cnt L'"
    and b: "b \<in> set (lev L)"
    and sized: "bnd (box_index b) = replicate (cnt L) []"
  shows "fold (\<lambda>L. resize_all (lev L) (cnt L)) Ls bnd (box_index b) = replicate (cnt L) []"
  using sized
proof (induction Ls arbitrary: bnd)
  case Nil
  then show ?case by simp
next
  case (Cons L' Ls)
  have "resize_all (lev L') (cnt L') bnd (box_index b) = replicate (cnt L) []"
  proof (cases "box_index b \<in> box_index ` set (lev L')")
    case True
    then obtain b' where "b' \<in> set (lev L')" "box_index b = box_index b'"
      by auto
    with apart [OF b] have "cnt L = cnt L'"
      by blast
    with True Cons.prems show ?thesis
      by (simp add: resize_all_apply resize_replicate)
  next
    case False
    with Cons.prems show ?thesis
      by (simp add: resize_all_apply)
  qed
  then show ?case
    using Cons.IH [of "resize_all (lev L') (cnt L') bnd"] by simp
qed

lemma fold_resize_sized:
  fixes lev :: "int \<Rightarrow> box list" and cnt :: "int \<Rightarrow> nat"
  assumes apart: "\<And>L L' b b'. b \<in> set (lev L) \<Longrightarrow> b' \<in> set (lev L') \<Longrightarrow>
                    box_index b = box_index b' \<Longrightarrow> cnt L = cnt L'"
    and form: "\<And>i. \<exists>k. bnd i = replicate k []"
    and L: "L \<in> set Ls" and b: "b \<in> set (lev L)"
  shows "fold (\<lambda>L. resize_all (lev L) (cnt L)) Ls bnd (box_index b) = replicate (cnt L) []"
  using form L
proof (induction Ls arbitrary: bnd)
  case Nil
  then show ?case by simp
next
  case (Cons L' Ls)
  let ?bnd = "resize_all (lev L') (cnt L') bnd"
  show ?case
  proof (cases "L = L'")
    case True
    obtain k where "bnd (box_index b) = replicate k []"
      using Cons.prems(1) by blast
    with b True have "?bnd (box_index b) = replicate (cnt L) []"
      by (simp add: resize_all_apply resize_replicate)
    then have "fold (\<lambda>L. resize_all (lev L) (cnt L)) Ls ?bnd (box_index b) = replicate (cnt L) []"
      using apart b by (rule fold_resize_stable [where lev = lev and cnt = cnt, rotated 2])
    then show ?thesis by simp
  next
    case False
    with Cons.prems(2) have "L \<in> set Ls" by simp
    moreover have "\<exists>k. ?bnd i = replicate k []" for i
      by (rule resize_all_form) (rule Cons.prems(1))
    ultimately have "fold (\<lambda>L. resize_all (lev L) (cnt L)) Ls ?bnd (box_index b) = replicate (cnt L) []"
      using Cons.IH [of ?bnd] by blast
    then show ?thesis by simp
  qed
qed

lemma multipole_init_level:
  "multipole (init_level mL ts tt L st) =
     resize_all (boxes (mL - L) ts) (boxes_count tt L) (multipole st)"
  by (simp add: init_level_def Let_def)

lemma local_init_level:
  "local (init_level mL ts tt L st) =
     resize_all (boxes L tt) (boxes_count ts (mL - L)) (local st)"
  by (simp add: init_level_def Let_def)

lemma multipole_fold_init:
  "multipole (fold (init_level mL ts tt) Ls st) =
     fold (\<lambda>L. resize_all (boxes (mL - L) ts) (boxes_count tt L)) Ls (multipole st)"
  by (induction Ls arbitrary: st) (simp_all add: multipole_init_level)

lemma local_fold_init:
  "local (fold (init_level mL ts tt) Ls st) =
     fold (\<lambda>L. resize_all (boxes L tt) (boxes_count ts (mL - L))) Ls (local st)"
  by (induction Ls arbitrary: st) (simp_all add: local_init_level)

lemma multipole_sized:
  assumes "tree_ok ts" and "0 \<le> L" and "L \<le> mL" and "sbox \<in> set (boxes (mL - L) ts)"
  shows "multipole (initialize mL ts tt (start M ts tt)) (box_index sbox) =
           replicate (boxes_count tt L) []"
proof -
  have apart: "boxes_count tt L1 = boxes_count tt L2"
    if "b \<in> set (boxes (mL - L1) ts)" "b' \<in> set (boxes (mL - L2) ts)"
      "box_index b = box_index b'" for L1 L2 b b'
  proof -
    have "mL - L1 = mL - L2"
      using tree_ok_levels_apart [OF assms(1) _ that(1) that(2)] that(3) by blast
    then show ?thesis by simp
  qed
  have form: "\<exists>k. multipole (start M ts tt) i = replicate k []" for i
    by (simp add: start_def make_box_binding_def)
  have L: "L \<in> set [0..mL]"
    using assms(2,3) by simp
  have "fold (\<lambda>L. resize_all (boxes (mL - L) ts) (boxes_count tt L)) [0..mL]
          (multipole (start M ts tt)) (box_index sbox) = replicate (boxes_count tt L) []"
    using apart form L assms(4)
    by (rule fold_resize_sized
        [where lev = "\<lambda>L. boxes (mL - L) ts" and cnt = "\<lambda>L. boxes_count tt L"])
  then show ?thesis
    by (simp add: initialize_def multipole_fold_init)
qed

lemma local_sized:
  assumes "tree_ok tt" and "0 \<le> L" and "L \<le> mL" and "tbox \<in> set (boxes L tt)"
  shows "local (initialize mL ts tt (start M ts tt)) (box_index tbox) =
           replicate (boxes_count ts (mL - L)) []"
proof -
  have apart: "boxes_count ts (mL - L1) = boxes_count ts (mL - L2)"
    if "b \<in> set (boxes L1 tt)" "b' \<in> set (boxes L2 tt)"
      "box_index b = box_index b'" for L1 L2 b b'
  proof -
    have "L1 = L2"
      using tree_ok_levels_apart [OF assms(1) _ that(1) that(2)] that(3) by blast
    then show ?thesis by simp
  qed
  have form: "\<exists>k. local (start M ts tt) i = replicate k []" for i
    by (simp add: start_def make_box_binding_def)
  have L: "L \<in> set [0..mL]"
    using assms(2,3) by simp
  have "fold (\<lambda>L. resize_all (boxes L tt) (boxes_count ts (mL - L))) [0..mL]
          (local (start M ts tt)) (box_index tbox) = replicate (boxes_count ts (mL - L)) []"
    using apart form L assms(4)
    by (rule fold_resize_sized
        [where lev = "\<lambda>L. boxes L tt" and cnt = "\<lambda>L. boxes_count ts (mL - L)"])
  then show ?thesis
    by (simp add: initialize_def local_fold_init)
qed

text \<open>
  C9. In trees that keep the contract (no identity twice), the state handed to the sweep
  is the one the resize loop leaves, and in it, for every level \<open>L\<close> from \<open>0\<close> to
  \<open>max_L\<close>, the multipole slot of every source box of level \<open>max_L - L\<close> has as many
  (default-constructed) entries as there are target boxes at level \<open>L\<close>, and the local
  slot of every target box of level \<open>L\<close> has as many entries as there are source boxes at
  level \<open>max_L - L\<close>.
\<close>

theorem slots_sized_before_sweep:
  assumes "tree_ok ts" and "tree_ok tt" and "0 \<le> L" and "L \<le> max_L ts tt"
  shows "butterfly M ts tt =
           (if 0 < L_split (max_L ts tt)
            then Inr (sweep (max_L ts tt) (L_split (max_L ts tt)) ts tt
                       (initialize (max_L ts tt) ts tt (start M ts tt)))
            else Inl (AssertionFailed, initialize (max_L ts tt) ts tt (start M ts tt))) \<and>
         (\<forall>sbox \<in> set (boxes (max_L ts tt - L) ts).
            multipole (initialize (max_L ts tt) ts tt (start M ts tt)) (box_index sbox) =
              replicate (boxes_count tt L) []) \<and>
         (\<forall>tbox \<in> set (boxes L tt).
            local (initialize (max_L ts tt) ts tt (start M ts tt)) (box_index tbox) =
              replicate (boxes_count ts (max_L ts tt - L)) [])"
  using assms by (simp add: multipole_sized local_sized butterfly_def Let_def)

lemma tree_ok_tree3: "tree_ok tree3"
  by (simp add: tree_ok_def tree3_def)

theorem slots_sized_before_sweep_witness:
  "tree_ok tree3 \<and> (0::int) \<le> 1 \<and> 1 \<le> max_L tree3 tree3 \<and>
   multipole (initialize (max_L tree3 tree3) tree3 tree3 (start 1 tree3 tree3)) 2 =
     [[], []] \<and>
   local (initialize (max_L tree3 tree3) tree3 tree3 (start 1 tree3 tree3)) 1 =
     [[], []]"
proof -
  have h: "tree_ok tree3" "(0::int) \<le> 1" "1 \<le> max_L tree3 tree3"
    by (simp_all add: tree_ok_tree3 max_L_tree3)
  from slots_sized_before_sweep [OF h(1) h(1) h(2) h(3), of 1] h show ?thesis
    by (simp add: max_L_tree3 boxes_tree3 boxes_count_def numeral_2_eq_2)
qed

section \<open>Properties of the kernel\<close>

text \<open>
  C4, amended: for every pair of points the kernel value is the amplitude times
  \<open>cos (phase) + i sin (phase)\<close>; \<open>phase\<close> already holds the factor \<open>2\<pi>\<close>.
\<close>

theorem kernel_factorization:
  "kernel_value t s =
     of_real (ampl t s) * Complex (cos (phase t s)) (sin (phase t s))"
  by (simp add: kernel_value_def ampl_def phase_def cos_pi_def sin_pi_def Let_def mult_ac)

lemma cos_sin_same:
  assumes "cos a = cos b" and "sin a = sin b"
  shows "\<exists>k::int. b - a = real_of_int k * 2 * pi"
proof -
  have "cos (b - a) = cos b * cos a + sin b * sin a"
    by (rule cos_diff)
  also have "\<dots> = (cos b)\<^sup>2 + (sin b)\<^sup>2"
    using assms by (simp add: power2_eq_square)
  also have "\<dots> = 1"
    by (simp add: add.commute)
  finally show ?thesis
    by (simp add: cos_one_2pi_int)
qed

text \<open>
  C4, as stated: the value is the amplitude times \<open>cos (2\<pi> phase) + i sin (2\<pi> phase)\<close>.
  At the target \<open>1/8\<close> and the source \<open>1\<close> the value is \<open>cos (\<pi>/4) + i sin (\<pi>/4)\<close>, and
  the stated product is \<open>cos (\<pi>\<^sup>2/2) + i sin (\<pi>\<^sup>2/2)\<close>.
\<close>

theorem kernel_two_pi_counterexample:
  "kernel_value (1/8) 1 \<noteq>
     of_real (ampl (1/8) 1) * Complex (cos (2 * pi * phase (1/8) 1)) (sin (2 * pi * phase (1/8) 1))"
proof
  assume "kernel_value (1/8) 1 =
     of_real (ampl (1/8) 1) * Complex (cos (2 * pi * phase (1/8) 1)) (sin (2 * pi * phase (1/8) 1))"
  then have "cos (pi / 4) = cos (pi * pi / 2)" and "sin (pi / 4) = sin (pi * pi / 2)"
    by (simp_all add: kernel_value_def ampl_def phase_def cos_pi_def sin_pi_def Let_def
        inner_prod_def complex_eq_iff)
  then obtain k :: int where "pi * pi / 2 - pi / 4 = real_of_int k * 2 * pi"
    using cos_sin_same by blast
  then have "pi * (pi / 2 - 1 / 4) = pi * (2 * real_of_int k)"
    by (simp add: algebra_simps)
  then have k: "pi / 2 - 1 / 4 = 2 * real_of_int k"
    using pi_gt_zero by simp
  have "2 \<le> pi" and "pi < 4"
    by (rule pi_ge_two, rule pi_less_4)
  with k have "0 < real_of_int k" and "real_of_int k < 1"
    by linarith+
  then have "0 < k" and "k < 1"
    by simp_all
  then show False
    by linarith
qed

section \<open>Properties of the error metrics\<close>

lemma error_loop_Suc: "error_loop rs es (Suc n) = error_step rs es n (error_loop rs es n)"
  by (simp add: error_loop_def)

lemma error_loop_0: "error_loop rs es 0 = zero_totals"
  by (simp add: error_loop_def)

lemma std_max_Fin: "std_max (Fin a) (Fin b) = Fin (max a b)"
  by (simp add: std_max_def max_def)

lemma error_loop_regular:
  assumes "\<And>k. k < n \<Longrightarrow> es ! k \<noteq> 0"
  shows "error_loop rs es n =
     \<lparr>tot_error_sq = Fin (\<Sum>k<n. (cmod (es ! k - rs ! k))\<^sup>2),
      tot_norm_sq = Fin (\<Sum>k<n. (cmod (es ! k))\<^sup>2),
      tot_ind_rel_err = Fin (\<Sum>k<n. ratio rs es k),
      max_ind_rel_err = Fin (Max (insert 0 (ratio rs es ` {..<n})))\<rparr>"
  using assms
proof (induction n)
  case 0
  show ?case by (simp add: error_loop_0 zero_totals_def)
next
  case (Suc n)
  have ne: "es ! n \<noteq> 0"
    using Suc.prems by simp
  have IH: "error_loop rs es n =
     \<lparr>tot_error_sq = Fin (\<Sum>k<n. (cmod (es ! k - rs ! k))\<^sup>2),
      tot_norm_sq = Fin (\<Sum>k<n. (cmod (es ! k))\<^sup>2),
      tot_ind_rel_err = Fin (\<Sum>k<n. ratio rs es k),
      max_ind_rel_err = Fin (Max (insert 0 (ratio rs es ` {..<n})))\<rparr>"
    using Suc.prems by (intro Suc.IH) simp
  have r: "rel_error (rs ! n) (es ! n) = Fin (ratio rs es n)"
    using ne by (simp add: rel_error_def norm_2_def ratio_def)
  have m: "std_max (Fin (Max (insert 0 (ratio rs es ` {..<n})))) (Fin (ratio rs es n)) =
           Fin (Max (insert 0 (ratio rs es ` {..<Suc n})))"
  proof -
    have "insert 0 (ratio rs es ` {..<Suc n}) =
          insert (ratio rs es n) (insert 0 (ratio rs es ` {..<n}))"
      by (auto simp: lessThan_Suc)
    then have "Max (insert 0 (ratio rs es ` {..<Suc n})) =
          max (ratio rs es n) (Max (insert 0 (ratio rs es ` {..<n})))"
      by (simp only: Max_insert [of "insert 0 (ratio rs es ` {..<n})" "ratio rs es n"]) simp
    then show ?thesis
      by (simp only: std_max_Fin max.commute)
  qed
  show ?case
    by (simp add: error_loop_Suc IH error_step_def r m norm_2_sq_def)
qed


lemma ratio_nonneg: "0 \<le> ratio rs es k"
  by (simp add: ratio_def)

text \<open>
  C8. For \<open>result\<close> and \<open>exact\<close> of the same length \<open>M > 0\<close>, with no \<open>exact\<^sub>k\<close> of norm
  zero, the three reported numbers are: the square root of the sum of the squared norms
  of \<open>exact\<^sub>k - result\<^sub>k\<close> over the sum of the squared norms of \<open>exact\<^sub>k\<close>; the mean
  of the ratios of the norm of \<open>exact\<^sub>k - result\<^sub>k\<close> to the norm of \<open>exact\<^sub>k\<close>; and the
  greatest of these ratios.
\<close>

theorem error_metrics:
  assumes "length es = length rs" and "rs \<noteq> []" and "\<forall>e \<in> set es. e \<noteq> 0"
  shows "tot_rel_err (check_errors rs es) =
           Fin (sqrt ((\<Sum>k<length rs. (cmod (es ! k - rs ! k))\<^sup>2) /
                      (\<Sum>k<length rs. (cmod (es ! k))\<^sup>2))) \<and>
         ave_rel_err (check_errors rs es) =
           Fin ((\<Sum>k<length rs. cmod (es ! k - rs ! k) / cmod (es ! k)) / real (length rs)) \<and>
         max_rel_err (check_errors rs es) =
           Fin (Max ((\<lambda>k. cmod (es ! k - rs ! k) / cmod (es ! k)) ` {..<length rs}))"
proof -
  let ?n = "length rs"
  have ne: "es ! k \<noteq> 0" if "k < ?n" for k
    using that assms(1,3) by (simp add: nth_mem)
  have loop: "error_loop rs es ?n =
     \<lparr>tot_error_sq = Fin (\<Sum>k<?n. (cmod (es ! k - rs ! k))\<^sup>2),
      tot_norm_sq = Fin (\<Sum>k<?n. (cmod (es ! k))\<^sup>2),
      tot_ind_rel_err = Fin (\<Sum>k<?n. ratio rs es k),
      max_ind_rel_err = Fin (Max (insert 0 (ratio rs es ` {..<?n})))\<rparr>"
    by (rule error_loop_regular) (rule ne)
  have n: "0 < ?n"
    using assms(2) by simp
  have "0 < (\<Sum>k<?n. (cmod (es ! k))\<^sup>2)"
    by (rule sum_pos) (use n ne in auto)
  then have den: "(\<Sum>k<?n. (cmod (es ! k))\<^sup>2) \<noteq> 0"
    by simp
  have num: "0 \<le> (\<Sum>k<?n. (cmod (es ! k - rs ! k))\<^sup>2) / (\<Sum>k<?n. (cmod (es ! k))\<^sup>2)"
    by (intro divide_nonneg_nonneg sum_nonneg) simp_all
  have "ratio rs es ` {..<?n} \<noteq> {}" and "finite (ratio rs es ` {..<?n})"
    using n by auto
  then have "Max (insert 0 (ratio rs es ` {..<?n})) = max 0 (Max (ratio rs es ` {..<?n}))"
    by (rule Max_insert [rotated])
  also have "\<dots> = Max (ratio rs es ` {..<?n})"
  proof -
    have "ratio rs es 0 \<in> ratio rs es ` {..<?n}"
      using n by simp
    then have "ratio rs es 0 \<le> Max (ratio rs es ` {..<?n})"
      by (intro Max_ge) simp_all
    with ratio_nonneg [of rs es 0] show ?thesis
      by (simp add: max_def)
  qed
  finally have mx: "Max (insert 0 (ratio rs es ` {..<?n})) = Max (ratio rs es ` {..<?n})" .
  have r: "ratio rs es = (\<lambda>k. cmod (es ! k - rs ! k) / cmod (es ! k))"
    by (simp add: ratio_def fun_eq_iff)
  show ?thesis
    using den num n by (simp add: check_errors_def Let_def loop mx) (simp add: r)
qed

theorem error_metrics_witness:
  "length [1::complex] = length [0::complex] \<and> [0::complex] \<noteq> [] \<and>
   tot_rel_err (check_errors [0] [1]) = Fin 1 \<and>
   ave_rel_err (check_errors [0] [1]) = Fin 1 \<and>
   max_rel_err (check_errors [0] [1]) = Fin 1"
  using error_metrics [of "[1]" "[0]"]
  by (simp add: lessThan_Suc)

lemma is_finite_dadd: "is_finite (dadd a b) = (is_finite a \<and> is_finite b)"
  by (cases a; cases b) simp_all

lemma not_finite_ddiv: "\<not> is_finite a \<Longrightarrow> \<not> is_finite (ddiv a (Fin b))"
  by (cases a) simp_all

lemma rel_error_zero_norm: "rel_error r 0 = (if r = 0 then NaN else PInf)"
  by (simp add: rel_error_def norm_2_def)

lemma tot_ind_rel_err_step:
  "tot_ind_rel_err (error_step rs es k a) = dadd (tot_ind_rel_err a) (rel_error (rs ! k) (es ! k))"
  by (simp add: error_step_def)

lemma tot_ind_rel_err_poisoned:
  assumes "k < n" and "es ! k = 0"
  shows "\<not> is_finite (tot_ind_rel_err (error_loop rs es n))"
  using assms(1)
proof (induction n)
  case 0
  then show ?case by simp
next
  case (Suc n)
  show ?case
  proof (cases "k = n")
    case True
    with assms(2) show ?thesis
      by (simp add: error_loop_Suc tot_ind_rel_err_step is_finite_dadd rel_error_zero_norm)
  next
    case False
    with Suc.prems have "k < n" by simp
    with Suc.IH show ?thesis
      by (simp add: error_loop_Suc tot_ind_rel_err_step is_finite_dadd)
  qed
qed

lemma std_max_PInf: "std_max PInf b = PInf"
  by (cases b) (simp_all add: std_max_def)

lemma std_max_not_NaN: "a \<noteq> NaN \<Longrightarrow> std_max a b \<noteq> NaN"
  by (cases a; cases b) (simp_all add: std_max_def)

lemma std_max_to_PInf: "a \<noteq> NaN \<Longrightarrow> std_max a PInf = PInf"
  by (cases a) (simp_all add: std_max_def)

lemma max_ind_rel_err_step:
  "max_ind_rel_err (error_step rs es k a) = std_max (max_ind_rel_err a) (rel_error (rs ! k) (es ! k))"
  by (simp add: error_step_def)

lemma max_ind_rel_err_not_NaN: "max_ind_rel_err (error_loop rs es n) \<noteq> NaN"
  by (induction n)
    (simp_all add: error_loop_0 zero_totals_def error_loop_Suc max_ind_rel_err_step std_max_not_NaN)

lemma max_ind_rel_err_infinite:
  assumes "k < n" and "es ! k = 0" and "rs ! k \<noteq> 0"
  shows "max_ind_rel_err (error_loop rs es n) = PInf"
  using assms(1)
proof (induction n)
  case 0
  then show ?case by simp
next
  case (Suc n)
  show ?case
  proof (cases "k = n")
    case True
    with assms(2,3) show ?thesis
      by (simp add: error_loop_Suc max_ind_rel_err_step rel_error_zero_norm
          std_max_to_PInf max_ind_rel_err_not_NaN)
  next
    case False
    with Suc.prems have "k < n" by simp
    with Suc.IH show ?thesis
      by (simp add: error_loop_Suc max_ind_rel_err_step std_max_PInf)
  qed
qed

lemma squares_finite:
  "is_finite (tot_error_sq (error_loop rs es n)) \<and> is_finite (tot_norm_sq (error_loop rs es n))"
  by (induction n)
    (simp_all add: error_loop_0 zero_totals_def error_loop_Suc error_step_def is_finite_dadd
      norm_2_sq_def)

text \<open>
  C7, amended: an \<open>exact\<^sub>k\<close> of norm zero is not treated apart. The relative error of
  that target is the quotient as the division gives it, NaN if \<open>result\<^sub>k\<close> is zero too and
  \<open>+\<infinity>\<close> otherwise; it is added to the sum of the relative errors, so that this sum and
  the reported average are not finite; if \<open>result\<^sub>k\<close> is not zero the reported maximum is
  \<open>+\<infinity>\<close>. The two sums of squares of the aggregate error stay finite.
\<close>

theorem zero_norm_not_guarded:
  assumes "length es = length rs" and "k < length rs" and "es ! k = 0"
  shows "rel_error (rs ! k) (es ! k) = (if rs ! k = 0 then NaN else PInf) \<and>
         \<not> is_finite (tot_ind_rel_err (error_loop rs es (length rs))) \<and>
         \<not> is_finite (ave_rel_err (check_errors rs es)) \<and>
         (rs ! k \<noteq> 0 \<longrightarrow> max_rel_err (check_errors rs es) = PInf) \<and>
         is_finite (tot_error_sq (error_loop rs es (length rs))) \<and>
         is_finite (tot_norm_sq (error_loop rs es (length rs)))"
  using assms
  by (simp add: rel_error_zero_norm tot_ind_rel_err_poisoned check_errors_def Let_def
      not_finite_ddiv max_ind_rel_err_infinite squares_finite)

theorem zero_norm_not_guarded_witness:
  "length [0::complex] = length [1::complex] \<and>
   (0::nat) < length [1::complex] \<and> [0::complex] ! 0 = 0 \<and>
   rel_error 1 0 = PInf \<and>
   \<not> is_finite (ave_rel_err (check_errors [1] [0])) \<and>
   max_rel_err (check_errors [1] [0]) = PInf"
  using zero_norm_not_guarded [where k = 0 and rs = "[1]" and es = "[0]"] by simp

text \<open>
  C7, as stated: with \<open>exact = [0]\<close> and \<open>result = [0]\<close> the relative error of the target
  is 0 and no NaN enters the average. In the program it is NaN, and so is the average.
\<close>

theorem zero_norm_counterexample:
  "rel_error 0 0 \<noteq> Fin 0 \<and> ave_rel_err (check_errors [0] [0]) = NaN"
  by (simp add: rel_error_def norm_2_def check_errors_def error_loop_def error_step_def
      zero_totals_def)

end
